theory Spec2Isabelle
  imports Main "HOL-Library.Word" "HOL-Library.Char_ord" "HOL-Library.List_Lexorder"
begin

section \<open>Data model of the statistics handlers (stats\_handler.go)\<close>

text \<open>
  Go's \<open>int64\<close> is a 64-bit word. \<open>+\<close> wraps around; the comparisons \<open><\<close> of the
  source are signed, so they are written on \<open>sint\<close>. Go compares strings byte by byte,
  lexicographically, which is the order of \<open>char list\<close> from \<open>List_Lexorder\<close> over
  \<open>Char_ord\<close>.
\<close>

type_synonym int64 = "64 word"

record LivestreamRankingEntry =
  LivestreamID :: int64
  Score :: int64

type_synonym LivestreamRanking = "LivestreamRankingEntry list"

record UserRankingEntry =
  Username :: string
  Score :: int64

type_synonym UserRanking = "UserRankingEntry list"

text \<open>
  \<open>Less(i, j)\<close> of both ranking types reads only \<open>r[i]\<close> and \<open>r[j]\<close>; the model takes
  the two entries.
\<close>

definition LivestreamRanking_Less :: "LivestreamRankingEntry \<Rightarrow> LivestreamRankingEntry \<Rightarrow> bool" where
  "LivestreamRanking_Less ri rj =
     (if LivestreamRankingEntry.Score ri = LivestreamRankingEntry.Score rj
      then sint (LivestreamRankingEntry.LivestreamID ri) < sint (LivestreamRankingEntry.LivestreamID rj)
      else sint (LivestreamRankingEntry.Score ri) < sint (LivestreamRankingEntry.Score rj))"

definition UserRanking_Less :: "UserRankingEntry \<Rightarrow> UserRankingEntry \<Rightarrow> bool" where
  "UserRanking_Less ri rj =
     (if UserRankingEntry.Score ri = UserRankingEntry.Score rj
      then UserRankingEntry.Username ri < UserRankingEntry.Username rj
      else sint (UserRankingEntry.Score ri) < sint (UserRankingEntry.Score rj))"

subsection \<open>sort.Sort\<close>

text \<open>
  \<open>sort.Sort\<close> is Go's standard library: it rearranges the slice into ascending order
  of \<open>Less\<close>. It is modelled by an insertion sort over the handler's \<open>Less\<close>. Lemma
  \<open>sort_Sort_unique\<close> below shows that on entries with pairwise different identifiers
  every ascending rearrangement is this one, so the choice of algorithm is immaterial.
\<close>

fun sort_insert :: "('a \<Rightarrow> 'a \<Rightarrow> bool) \<Rightarrow> 'a \<Rightarrow> 'a list \<Rightarrow> 'a list" where
  "sort_insert lt x [] = [x]"
| "sort_insert lt x (y # ys) =
     (if lt x y then x # y # ys else y # sort_insert lt x ys)"

fun sort_Sort :: "('a \<Rightarrow> 'a \<Rightarrow> bool) \<Rightarrow> 'a list \<Rightarrow> 'a list" where
  "sort_Sort lt [] = []"
| "sort_Sort lt (x # xs) = sort_insert lt x (sort_Sort lt xs)"

subsection \<open>The rank scan\<close>

text \<open>
  \<^verbatim>\<open>
  var rank int64 = 1
  for i := len(ranking) - 1; i >= 0; i-- {
      entry := ranking[i]
      if entry.LivestreamID == livestreamID { break }
      rank++
  }
  \<close>
  The loop variable \<open>i\<close> runs from \<open>len(ranking) - 1\<close> down to \<open>-1\<close>; the model counts
  \<open>n = i + 1\<close> as a natural number, so that \<open>n = 0\<close> is the exit of the loop and
  \<open>ranking ! i\<close> is always in range. \<open>rank\<close> is an \<open>int64\<close> and \<open>rank++\<close> wraps.
\<close>

fun livestream_rank_loop :: "LivestreamRanking \<Rightarrow> int64 \<Rightarrow> nat \<Rightarrow> int64 \<Rightarrow> int64" where
  "livestream_rank_loop ranking livestreamID 0 rank = rank"
| "livestream_rank_loop ranking livestreamID (Suc i) rank =
     (let entry = ranking ! i in
      if LivestreamRankingEntry.LivestreamID entry = livestreamID then rank
      else livestream_rank_loop ranking livestreamID i (rank + 1))"

fun user_rank_loop :: "UserRanking \<Rightarrow> string \<Rightarrow> nat \<Rightarrow> int64 \<Rightarrow> int64" where
  "user_rank_loop ranking username 0 rank = rank"
| "user_rank_loop ranking username (Suc i) rank =
     (let entry = ranking ! i in
      if UserRankingEntry.Username entry = username then rank
      else user_rank_loop ranking username i (rank + 1))"

text \<open>
  The ranking computation of \<open>getLivestreamStatisticsHandler\<close> (lines 291 to 300) and of
  \<open>getUserStatisticsHandler\<close> (lines 144 to 153): \<open>sort.Sort(ranking)\<close>, then the scan.
\<close>

definition livestream_rank :: "LivestreamRanking \<Rightarrow> int64 \<Rightarrow> int64" where
  "livestream_rank ranking livestreamID =
     (let sorted = sort_Sort LivestreamRanking_Less ranking
      in livestream_rank_loop sorted livestreamID (length sorted) 1)"

definition user_rank :: "UserRanking \<Rightarrow> string \<Rightarrow> int64" where
  "user_rank ranking username =
     (let sorted = sort_Sort UserRanking_Less ranking
      in user_rank_loop sorted username (length sorted) 1)"

section \<open>The tag cache (top\_handler.go)\<close>

record TagModel =
  ID :: int64
  Name :: string

text \<open>
  \<open>TagCache\<close>: the two Go maps are partial functions. The mutex \<open>mu\<close> orders the calls;
  the model runs them one after the other and has no field for it.
\<close>

record TagCache =
  tags :: "int64 \<rightharpoonup> TagModel"
  nameToID :: "string \<rightharpoonup> int64"

definition NewTagCache :: TagCache where
  "NewTagCache = \<lparr>tags = Map.empty, nameToID = Map.empty\<rparr>"

text \<open>
  A Go map read \<open>v, found := m[k]\<close> of a missing key gives the zero value and \<open>false\<close>.
\<close>

definition GetTagByID :: "TagCache \<Rightarrow> int64 \<Rightarrow> TagModel \<times> bool" where
  "GetTagByID c tag_id =
     (case tags c tag_id of
        Some tag \<Rightarrow> (tag, True)
      | None \<Rightarrow> (\<lparr>TagModel.ID = 0, TagModel.Name = []\<rparr>, False))"

definition GetTagIDByName :: "TagCache \<Rightarrow> string \<Rightarrow> int64 \<times> bool" where
  "GetTagIDByName c name =
     (case nameToID c name of
        Some tag_id \<Rightarrow> (tag_id, True)
      | None \<Rightarrow> (0, False))"

section \<open>Errors, the database and the request\<close>

text \<open>
  An error of the database driver is \<open>sql.ErrNoRows\<close> or some other error with its
  message. \<open>errors.Is(err, sql.ErrNoRows)\<close> is the test \<open>err = ErrNoRows\<close>.
\<close>

datatype db_error = ErrNoRows | DBError string

fun Error :: "db_error \<Rightarrow> string" where
  "Error ErrNoRows = ''sql: no rows in result set''"
| "Error (DBError msg) = msg"

text \<open>
  What a handler returns instead of a response: \<open>echo.NewHTTPError(code, message)\<close>,
  \<open>fmt.Errorf(prefix + "%w", err)\<close>, the error of \<open>c.JSON\<close> when writing the response
  fails, or the run-time panic of a field write through a nil pointer read from a map.
\<close>

datatype error =
    HTTPError nat string
  | Errorf string db_error
  | ResponseError string
  | NilPointerPanic

text \<open>
  Modelled from the spec: the declarations of \<open>UserModel\<close> and \<open>LivestreamModel\<close> are
  not among the sources. The handlers read \<open>ID\<close> and \<open>Name\<close> of a user and \<open>ID\<close> of a
  livestream, so the records carry these fields only.
\<close>

record UserModel =
  ID :: int64
  Name :: string

record LivestreamModel =
  ID :: int64

record UserScores =
  UserID :: int64
  Reactions :: int64
  Tips :: int64

record LivestreamStats =
  LivestreamID :: int64
  LivecommentsCount :: int64
  TotalTip :: int64

record UserStatistics =
  Rank :: int64
  ViewersCount :: int64
  TotalReactions :: int64
  TotalLivecomments :: int64
  TotalTip :: int64
  FavoriteEmoji :: string

text \<open>
  The data store, as the handlers consume it: the outcome of every statement they
  issue inside one transaction, a row set or an error. The field comments give the
  statement.
\<close>

record db =
  BeginTxx :: "db_error option"
  Commit :: "db_error option"
  select_tags :: "db_error + TagModel list"
    \<comment> \<open>\<open>SELECT * FROM tags\<close>\<close>
  get_user :: "string \<Rightarrow> db_error + UserModel"
    \<comment> \<open>\<open>SELECT * FROM users WHERE name = ?\<close>\<close>
  select_users :: "db_error + UserModel list"
    \<comment> \<open>\<open>SELECT * FROM users\<close>\<close>
  select_reactions :: "db_error + UserScores list"
    \<comment> \<open>\<open>reactionsQuery\<close>\<close>
  select_tips :: "db_error + UserScores list"
    \<comment> \<open>\<open>tipsQuery\<close>\<close>
  get_total_reactions :: "string \<Rightarrow> db_error + int64"
    \<comment> \<open>the \<open>COUNT(*)\<close> of reactions of the user's livestreams\<close>
  select_livestream_stats :: "int64 \<Rightarrow> db_error + LivestreamStats list"
    \<comment> \<open>\<open>statsQuery\<close>\<close>
  get_viewers_count :: "int64 \<Rightarrow> db_error + int64"
    \<comment> \<open>\<open>SELECT COUNT(*) FROM livestream_viewers_history WHERE livestream_id = ?\<close>\<close>
  get_favorite_emoji :: "string \<Rightarrow> db_error + string"
    \<comment> \<open>the favourite emoji query\<close>

text \<open>
  The request, as the handlers consume it: the outcome of \<open>verifyUserSession(c)\<close> (a
  function of another file), the path parameter, and the outcome of \<open>c.JSON\<close>.
\<close>

record echo_Context =
  verifyUserSession :: "error option"
  Param_username :: string
  JSON :: "error option"

subsection \<open>initTagCache\<close>

text \<open>
  The body of the loop \<open>for _, tagModel := range tagModels\<close>: two map writes.
\<close>

definition store_tag :: "TagModel \<Rightarrow> TagCache \<Rightarrow> TagCache" where
  "store_tag tagModel c =
     c\<lparr>tags := (tags c)(TagModel.ID tagModel \<mapsto> tagModel),
       nameToID := (nameToID c)(TagModel.Name tagModel \<mapsto> TagModel.ID tagModel)\<rparr>"

text \<open>
  \<open>initTagCache\<close> returns its error (\<open>None\<close> is \<open>nil\<close>) and leaves the global
  \<open>tagCache\<close> in the state given by the second component.
\<close>

definition initTagCache :: "echo_Context \<Rightarrow> db \<Rightarrow> TagCache \<Rightarrow> error option \<times> TagCache" where
  "initTagCache c d tagCache =
     (case BeginTxx d of
        Some err \<Rightarrow> (Some (Errorf ''failed to begin transaction: '' err), tagCache)
      | None \<Rightarrow>
     (case select_tags d of
        Inl err \<Rightarrow> (Some (Errorf ''failed to get tags: '' err), tagCache)
      | Inr tagModels \<Rightarrow>
     (case Commit d of
        Some err \<Rightarrow> (Some (Errorf ''failed to commit: '' err), tagCache)
      | None \<Rightarrow> (JSON c, fold store_tag tagModels tagCache))))"

text \<open>
  The caches the program can hold: the one built by \<open>NewTagCache\<close> at start, and the
  one left by any call of \<open>initTagCache\<close> on such a cache.
\<close>

inductive reachable :: "TagCache \<Rightarrow> bool" where
  reachable_New: "reachable NewTagCache"
| reachable_init: "reachable tagCache \<Longrightarrow> reachable (snd (initTagCache c d tagCache))"

subsection \<open>getUserStatisticsHandler\<close>

text \<open>
  Sequencing of steps that may fail: the first error is the handler's return value.
\<close>

definition bind_error :: "error + 'a \<Rightarrow> ('a \<Rightarrow> error + 'b) \<Rightarrow> error + 'b" where
  "bind_error m f = (case m of Inl e \<Rightarrow> Inl e | Inr x \<Rightarrow> f x)"

text \<open>
  A statement whose failure answers 500 with \<open>message + err.Error()\<close>.
\<close>

definition query :: "db_error + 'a \<Rightarrow> string \<Rightarrow> error + 'a" where
  "query r message =
     (case r of
        Inl err \<Rightarrow> Inl (HTTPError 500 (message @ Error err))
      | Inr rows \<Rightarrow> Inr rows)"

text \<open>
  \<open>tx.GetContext\<close> guarded by \<open>err != nil && !errors.Is(err, sql.ErrNoRows)\<close>: on
  \<open>ErrNoRows\<close> the destination keeps its zero value and the handler goes on.
\<close>

definition get_or_zero :: "db_error + 'a \<Rightarrow> 'a \<Rightarrow> string \<Rightarrow> error + 'a" where
  "get_or_zero r zero message =
     (case r of
        Inl err \<Rightarrow>
          (if err \<noteq> ErrNoRows then Inl (HTTPError 500 (message @ Error err)) else Inr zero)
      | Inr v \<Rightarrow> Inr v)"

text \<open>
  \<open>userScoresMap[user.ID] = &UserScores{UserID: user.ID}\<close> for every user. Each entry
  points to a structure of its own, reached through the map only, so the map holds the
  structures themselves.
\<close>

definition init_scores :: "UserModel list \<Rightarrow> (int64 \<rightharpoonup> UserScores)" where
  "init_scores users =
     fold (\<lambda>user m. m(UserModel.ID user \<mapsto> \<lparr>UserID = UserModel.ID user, Reactions = 0, Tips = 0\<rparr>))
       users Map.empty"

text \<open>
  \<open>userScoresMap[score.UserID].Reactions = score.Reactions\<close>: a missing key reads as
  the nil pointer, and the write through it panics.
\<close>

fun map_reactions :: "UserScores list \<Rightarrow> (int64 \<rightharpoonup> UserScores) \<Rightarrow> error + (int64 \<rightharpoonup> UserScores)" where
  "map_reactions [] m = Inr m"
| "map_reactions (score # rest) m =
     (case m (UserID score) of
        None \<Rightarrow> Inl NilPointerPanic
      | Some s \<Rightarrow> map_reactions rest (m(UserID score \<mapsto> s\<lparr>Reactions := Reactions score\<rparr>)))"

fun map_tips :: "UserScores list \<Rightarrow> (int64 \<rightharpoonup> UserScores) \<Rightarrow> error + (int64 \<rightharpoonup> UserScores)" where
  "map_tips [] m = Inr m"
| "map_tips (score # rest) m =
     (case m (UserID score) of
        None \<Rightarrow> Inl NilPointerPanic
      | Some s \<Rightarrow> map_tips rest (m(UserID score \<mapsto> s\<lparr>Tips := Tips score\<rparr>)))"

text \<open>
  The loop that appends one \<open>UserRankingEntry\<close> per user, with the wrapping sum
  \<open>score.Reactions + score.Tips\<close>.
\<close>

fun build_ranking :: "UserModel list \<Rightarrow> (int64 \<rightharpoonup> UserScores) \<Rightarrow> UserRanking \<Rightarrow> error + UserRanking" where
  "build_ranking [] m ranking = Inr ranking"
| "build_ranking (user # rest) m ranking =
     (case m (UserModel.ID user) of
        None \<Rightarrow> Inl NilPointerPanic
      | Some score \<Rightarrow>
          build_ranking rest m
            (ranking @ [\<lparr>UserRankingEntry.Username = UserModel.Name user,
                         UserRankingEntry.Score = Reactions score + Tips score\<rparr>]))"

text \<open>
  \<open>totalLivecomments += stat.LivecommentsCount; totalTip += stat.TotalTip\<close>.
\<close>

definition sum_stats :: "LivestreamStats list \<Rightarrow> int64 \<times> int64" where
  "sum_stats livestreamStatsList =
     fold (\<lambda>stat (totalLivecomments, totalTip).
             (totalLivecomments + LivecommentsCount stat, totalTip + LivestreamStats.TotalTip stat))
       livestreamStatsList (0, 0)"

text \<open>
  \<open>for _, livestream := range livestreams\<close>: one count per livestream, added to
  \<open>viewersCount\<close>; \<open>cnt\<close> stays 0 on \<open>ErrNoRows\<close>.
\<close>

fun viewers_loop :: "db \<Rightarrow> LivestreamModel list \<Rightarrow> int64 \<Rightarrow> error + int64" where
  "viewers_loop d [] viewersCount = Inr viewersCount"
| "viewers_loop d (livestream # rest) viewersCount =
     bind_error
       (get_or_zero (get_viewers_count d (LivestreamModel.ID livestream)) 0
          ''failed to get livestream_view_history: '')
       (\<lambda>cnt. viewers_loop d rest (viewersCount + cnt))"

text \<open>
  The first half of the handler, up to the rank: session, transaction, the user, all
  users, their scores, the ranking, \<open>sort.Sort\<close> and the scan. It yields the user row
  and the rank.
\<close>

definition user_rank_stage :: "echo_Context \<Rightarrow> db \<Rightarrow> error + (UserModel \<times> int64)" where
  "user_rank_stage c d =
     (case verifyUserSession c of
        Some err \<Rightarrow> Inl err
      | None \<Rightarrow>
     (case BeginTxx d of
        Some err \<Rightarrow> Inl (HTTPError 500 (''failed to begin transaction: '' @ Error err))
      | None \<Rightarrow>
     (case get_user d (Param_username c) of
        Inl err \<Rightarrow>
          (if err = ErrNoRows
           then Inl (HTTPError 400 ''not found user that has the given username'')
           else Inl (HTTPError 500 (''failed to get user: '' @ Error err)))
      | Inr user \<Rightarrow>
          bind_error (query (select_users d) ''failed to get users: '') (\<lambda>users.
          bind_error (query (select_reactions d) ''failed to count reactions: '') (\<lambda>reactions.
          bind_error (map_reactions reactions (init_scores users)) (\<lambda>userScoresMap.
          bind_error (query (select_tips d) ''failed to count tips: '') (\<lambda>tips.
          bind_error (map_tips tips userScoresMap) (\<lambda>userScoresMap.
          bind_error (build_ranking users userScoresMap []) (\<lambda>ranking.
          Inr (user, user_rank ranking (Param_username c)))))))))))"

text \<open>
  The whole handler. \<open>var livestreams []*LivestreamModel\<close> is declared and never
  assigned, so the loop over it runs on the nil slice. The handler returns what
  \<open>c.JSON(http.StatusOK, stats)\<close> returns; \<open>Inr stats\<close> is the response written.
\<close>

definition getUserStatisticsHandler :: "echo_Context \<Rightarrow> db \<Rightarrow> error + UserStatistics" where
  "getUserStatisticsHandler c d =
     bind_error (user_rank_stage c d) (\<lambda>(user, rank).
     bind_error (get_or_zero (get_total_reactions d (Param_username c)) 0
                   ''failed to count total reactions: '') (\<lambda>totalReactions.
     bind_error (query (select_livestream_stats d (UserModel.ID user))
                   ''failed to get livestream livestreamStatsList: '') (\<lambda>livestreamStatsList.
     (case sum_stats livestreamStatsList of (totalLivecomments, totalTip) \<Rightarrow>
     (let livestreams = [] in
     bind_error (viewers_loop d livestreams 0) (\<lambda>viewersCount.
     bind_error (get_or_zero (get_favorite_emoji d (Param_username c)) []
                   ''failed to find favorite emoji: '') (\<lambda>favoriteEmoji.
     (let stats = \<lparr>Rank = rank, ViewersCount = viewersCount, TotalReactions = totalReactions,
                   TotalLivecomments = totalLivecomments, UserStatistics.TotalTip = totalTip,
                   FavoriteEmoji = favoriteEmoji\<rparr>
      in case JSON c of Some err \<Rightarrow> Inl err | None \<Rightarrow> Inr stats))))))))"

section \<open>Auxiliary notions for the statements\<close>

text \<open>
  The number of times the rank scan runs \<open>rank++\<close> on a slice \<open>xs\<close>: the entries met
  from the end of \<open>xs\<close> before the first one whose identifier is the target.
\<close>

definition scan_steps :: "('a \<Rightarrow> 'k) \<Rightarrow> 'k \<Rightarrow> 'a list \<Rightarrow> nat" where
  "scan_steps key t xs = length (takeWhile (\<lambda>e. key e \<noteq> t) (rev xs))"


text \<open>
  A database state and a request on which both handlers succeed, used to instantiate
  the theorems: two tags, two users, and a viewers history that counts 7 for every
  livestream.
\<close>

definition example_db :: db where
  "example_db =
     \<lparr>BeginTxx = None,
      Commit = None,
      select_tags = Inr [\<lparr>TagModel.ID = 1, TagModel.Name = ''a''\<rparr>,
                         \<lparr>TagModel.ID = 2, TagModel.Name = ''b''\<rparr>],
      get_user = (\<lambda>name. if name = ''alice''
                          then Inr \<lparr>UserModel.ID = 1, UserModel.Name = ''alice''\<rparr>
                          else Inl ErrNoRows),
      select_users = Inr [\<lparr>UserModel.ID = 1, UserModel.Name = ''alice''\<rparr>,
                          \<lparr>UserModel.ID = 2, UserModel.Name = ''bob''\<rparr>],
      select_reactions = Inr [\<lparr>UserID = 1, Reactions = 3, Tips = 0\<rparr>],
      select_tips = Inr [\<lparr>UserID = 2, Reactions = 0, Tips = 5\<rparr>],
      get_total_reactions = (\<lambda>name. Inr 3),
      select_livestream_stats =
        (\<lambda>user_id. Inr [\<lparr>LivestreamID = 10, LivecommentsCount = 2, LivestreamStats.TotalTip = 4\<rparr>]),
      get_viewers_count = (\<lambda>livestream_id. Inr 7),
      get_favorite_emoji = (\<lambda>name. Inr ''smile'')\<rparr>"

definition example_Context :: echo_Context where
  "example_Context = \<lparr>verifyUserSession = None, Param_username = ''alice'', JSON = None\<rparr>"

text \<open>
  Score sets used to instantiate the theorems: one with a tie at the lowest score,
  one with pairwise different scores, for each of the two handlers.
\<close>

definition tied_livestreams :: LivestreamRanking where
  "tied_livestreams =
     [\<lparr>LivestreamRankingEntry.LivestreamID = 1, LivestreamRankingEntry.Score = 10\<rparr>,
      \<lparr>LivestreamRankingEntry.LivestreamID = 2, LivestreamRankingEntry.Score = 30\<rparr>,
      \<lparr>LivestreamRankingEntry.LivestreamID = 3, LivestreamRankingEntry.Score = 10\<rparr>]"

definition tied_users :: UserRanking where
  "tied_users =
     [\<lparr>UserRankingEntry.Username = ''alice'', UserRankingEntry.Score = 3\<rparr>,
      \<lparr>UserRankingEntry.Username = ''bob'', UserRankingEntry.Score = 5\<rparr>,
      \<lparr>UserRankingEntry.Username = ''carol'', UserRankingEntry.Score = 3\<rparr>]"

definition ranked_livestreams :: LivestreamRanking where
  "ranked_livestreams =
     [\<lparr>LivestreamRankingEntry.LivestreamID = 1, LivestreamRankingEntry.Score = 10\<rparr>,
      \<lparr>LivestreamRankingEntry.LivestreamID = 2, LivestreamRankingEntry.Score = 30\<rparr>,
      \<lparr>LivestreamRankingEntry.LivestreamID = 3, LivestreamRankingEntry.Score = 20\<rparr>]"

definition ranked_users :: UserRanking where
  "ranked_users =
     [\<lparr>UserRankingEntry.Username = ''alice'', UserRankingEntry.Score = 3\<rparr>,
      \<lparr>UserRankingEntry.Username = ''bob'', UserRankingEntry.Score = 5\<rparr>,
      \<lparr>UserRankingEntry.Username = ''carol'', UserRankingEntry.Score = 4\<rparr>]"

section \<open>Properties of the ranking order and of sort.Sort\<close>

lemma sint_inj64: "(sint (a::int64) = sint b) = (a = b)"
  using word_eq_iff_signed [where ?'a = int, of a b] by simp

lemma sint_of_nat64: "n < 2 ^ 63 \<Longrightarrow> sint (of_nat n :: int64) = int n"
proof -
  assume "n < 2 ^ 63"
  then have "int n < 2 ^ 63" by (metis of_nat_less_iff of_nat_numeral of_nat_power)
  then show ?thesis
    by (simp add: signed_of_nat signed_take_bit_int_eq_self)
qed

lemma LivestreamRanking_Less_iff:
  "LivestreamRanking_Less a b \<longleftrightarrow>
     sint (LivestreamRankingEntry.Score a) < sint (LivestreamRankingEntry.Score b) \<or>
     (sint (LivestreamRankingEntry.Score a) = sint (LivestreamRankingEntry.Score b) \<and>
      sint (LivestreamRankingEntry.LivestreamID a) < sint (LivestreamRankingEntry.LivestreamID b))"
  by (auto simp: LivestreamRanking_Less_def sint_inj64)

lemma UserRanking_Less_iff:
  "UserRanking_Less a b \<longleftrightarrow>
     sint (UserRankingEntry.Score a) < sint (UserRankingEntry.Score b) \<or>
     (sint (UserRankingEntry.Score a) = sint (UserRankingEntry.Score b) \<and>
      UserRankingEntry.Username a < UserRankingEntry.Username b)"
  by (auto simp: UserRanking_Less_def sint_inj64)

lemma LivestreamRanking_Less_asym: "LivestreamRanking_Less a b \<Longrightarrow> \<not> LivestreamRanking_Less b a"
  by (auto simp: LivestreamRanking_Less_iff)

lemma LivestreamRanking_Less_negtrans:
  "\<not> LivestreamRanking_Less b a \<Longrightarrow> \<not> LivestreamRanking_Less c b \<Longrightarrow> \<not> LivestreamRanking_Less c a"
  by (auto simp: LivestreamRanking_Less_iff)

lemma LivestreamRanking_Less_total:
  "(a::LivestreamRankingEntry) \<noteq> b \<Longrightarrow> LivestreamRanking_Less a b \<or> LivestreamRanking_Less b a"
proof -
  assume "a \<noteq> b"
  then have "sint (LivestreamRankingEntry.Score a) \<noteq> sint (LivestreamRankingEntry.Score b) \<or>
             sint (LivestreamRankingEntry.LivestreamID a) \<noteq> sint (LivestreamRankingEntry.LivestreamID b)"
    by (cases a; cases b) (auto simp: sint_inj64)
  then show ?thesis
    unfolding LivestreamRanking_Less_iff by linarith
qed

lemma UserRanking_Less_asym: "UserRanking_Less a b \<Longrightarrow> \<not> UserRanking_Less b a"
  by (auto simp: UserRanking_Less_iff)

lemma UserRanking_Less_negtrans:
  "\<not> UserRanking_Less b a \<Longrightarrow> \<not> UserRanking_Less c b \<Longrightarrow> \<not> UserRanking_Less c a"
  by (auto simp: UserRanking_Less_iff)

lemma UserRanking_Less_total:
  "(a::UserRankingEntry) \<noteq> b \<Longrightarrow> UserRanking_Less a b \<or> UserRanking_Less b a"
proof -
  assume "a \<noteq> b"
  then have "sint (UserRankingEntry.Score a) \<noteq> sint (UserRankingEntry.Score b) \<or>
             UserRankingEntry.Username a \<noteq> UserRankingEntry.Username b"
    by (cases a; cases b) (auto simp: sint_inj64)
  then show ?thesis
    unfolding UserRanking_Less_iff using less_linear by auto
qed

lemma set_sort_insert: "set (sort_insert lt x xs) = insert x (set xs)"
  by (induction xs) auto

lemma length_sort_insert: "length (sort_insert lt x xs) = Suc (length xs)"
  by (induction xs) auto

lemma set_sort_Sort: "set (sort_Sort lt xs) = set xs"
  by (induction xs) (auto simp: set_sort_insert)

lemma length_sort_Sort: "length (sort_Sort lt xs) = length xs"
  by (induction xs) (auto simp: length_sort_insert)

lemma distinct_map_sort_insert:
  "distinct (map f (sort_insert lt x xs)) = (f x \<notin> f ` set xs \<and> distinct (map f xs))"
  by (induction xs) (auto simp: set_sort_insert)

lemma distinct_map_sort_Sort: "distinct (map f (sort_Sort lt xs)) = distinct (map f xs)"
  by (induction xs) (auto simp: distinct_map_sort_insert set_sort_Sort)

lemma sorted_sort_insert:
  assumes asym: "\<And>a b. lt a b \<Longrightarrow> \<not> lt b a"
    and nt: "\<And>a b c. \<not> lt b a \<Longrightarrow> \<not> lt c b \<Longrightarrow> \<not> lt c a"
  shows "sorted_wrt (\<lambda>a b. \<not> lt b a) xs \<Longrightarrow> sorted_wrt (\<lambda>a b. \<not> lt b a) (sort_insert lt x xs)"
proof (induction xs)
  case Nil
  then show ?case by simp
next
  case (Cons y ys)
  show ?case
  proof (cases "lt x y")
    case True
    then have "\<not> lt y x" by (rule asym)
    moreover have "\<forall>z\<in>set ys. \<not> lt z x"
      using Cons.prems \<open>\<not> lt y x\<close> nt by auto
    ultimately show ?thesis using True Cons.prems by simp
  next
    case False
    then show ?thesis using Cons by (auto simp: set_sort_insert)
  qed
qed

lemma sorted_sort_Sort:
  assumes asym: "\<And>a b. lt a b \<Longrightarrow> \<not> lt b a"
    and nt: "\<And>a b c. \<not> lt b a \<Longrightarrow> \<not> lt c b \<Longrightarrow> \<not> lt c a"
  shows "sorted_wrt (\<lambda>a b. \<not> lt b a) (sort_Sort lt xs)"
  by (induction xs) (simp_all add: sorted_sort_insert [OF asym nt])

lemma scan_steps_le: "scan_steps key t xs \<le> length xs"
  unfolding scan_steps_def by (metis length_rev length_takeWhile_le)

lemma scan_steps_absent: "t \<notin> key ` set xs \<Longrightarrow> scan_steps key t xs = length xs"
  unfolding scan_steps_def by (subst takeWhile_eq_all_conv [THEN iffD2]) auto

lemma scan_steps_present: "t \<in> key ` set xs \<Longrightarrow> scan_steps key t xs < length xs"
proof -
  assume "t \<in> key ` set xs"
  then have "takeWhile (\<lambda>e. key e \<noteq> t) (rev xs) \<noteq> rev xs"
    by (auto simp: takeWhile_eq_all_conv)
  then have "length (takeWhile (\<lambda>e. key e \<noteq> t) (rev xs)) \<noteq> length (rev xs)"
    by (metis takeWhile_eq_take take_all order_refl)
  then show ?thesis
    using scan_steps_le [of key t xs] by (simp add: scan_steps_def)
qed

lemma scan_steps_at:
  assumes "j < length xs" and "key (rev xs ! j) = t"
    and "\<And>k. k < j \<Longrightarrow> key (rev xs ! k) \<noteq> t"
  shows "scan_steps key t xs = j"
proof -
  have "takeWhile (\<lambda>e. key e \<noteq> t) (rev xs) = take j (rev xs)"
    by (rule takeWhile_eq_take_P_nth) (use assms in auto)
  then show ?thesis using assms(1) by (simp add: scan_steps_def)
qed

lemma scan_steps_distinct:
  assumes "distinct (map key xs)" and "j < length xs"
  shows "scan_steps key (key (rev xs ! j)) xs = j"
proof (rule scan_steps_at [OF assms(2) refl])
  fix k assume "k < j"
  have d: "distinct (map key (rev xs))" using assms(1) by (simp add: rev_map [symmetric])
  have "map key (rev xs) ! k \<noteq> map key (rev xs) ! j"
    using nth_eq_iff_index_eq [OF d, of k j] \<open>k < j\<close> assms(2) by simp
  then show "key (rev xs ! k) \<noteq> key (rev xs ! j)"
    using \<open>k < j\<close> assms(2) by simp
qed

lemma livestream_rank_loop_eq:
  "n \<le> length ranking \<Longrightarrow>
   livestream_rank_loop ranking t n rank =
     rank + of_nat (scan_steps LivestreamRankingEntry.LivestreamID t (take n ranking))"
proof (induction n arbitrary: rank)
  case 0
  then show ?case by (simp add: scan_steps_def)
next
  case (Suc n)
  then have "take (Suc n) ranking = take n ranking @ [ranking ! n]"
    by (simp add: take_Suc_conv_app_nth)
  then show ?case using Suc by (simp add: scan_steps_def Let_def)
qed

lemma user_rank_loop_eq:
  "n \<le> length ranking \<Longrightarrow>
   user_rank_loop ranking t n rank =
     rank + of_nat (scan_steps UserRankingEntry.Username t (take n ranking))"
proof (induction n arbitrary: rank)
  case 0
  then show ?case by (simp add: scan_steps_def)
next
  case (Suc n)
  then have "take (Suc n) ranking = take n ranking @ [ranking ! n]"
    by (simp add: take_Suc_conv_app_nth)
  then show ?case using Suc by (simp add: scan_steps_def Let_def)
qed

lemma livestream_rank_eq:
  "livestream_rank ranking t =
     1 + of_nat (scan_steps LivestreamRankingEntry.LivestreamID t (sort_Sort LivestreamRanking_Less ranking))"
  by (simp add: livestream_rank_def Let_def livestream_rank_loop_eq)

lemma user_rank_eq:
  "user_rank ranking t =
     1 + of_nat (scan_steps UserRankingEntry.Username t (sort_Sort UserRanking_Less ranking))"
  by (simp add: user_rank_def Let_def user_rank_loop_eq)

lemma sint_rank64: "k < 2 ^ 63 - 1 \<Longrightarrow> sint (1 + of_nat k :: int64) = 1 + int k"
proof -
  assume "k < 2 ^ 63 - 1"
  then have "Suc k < 2 ^ 63" by simp
  then have "sint (of_nat (Suc k) :: int64) = int (Suc k)" by (rule sint_of_nat64)
  then show ?thesis by simp
qed

section \<open>The ranking computation\<close>

text \<open>
  C1 (as the code computes it). On the score set (id 1, score 10), (id 2, score 30),
  (id 3, score 10) with target id 3, the ranking computation of the livestream
  handler returns rank 2: the ascending order is id 1, id 3, id 2, and the scan from
  the highest end meets id 2 and then the target.
\<close>

theorem C1_rank_is_2:
  "livestream_rank
     [\<lparr>LivestreamRankingEntry.LivestreamID = 1, LivestreamRankingEntry.Score = 10\<rparr>,
      \<lparr>LivestreamRankingEntry.LivestreamID = 2, LivestreamRankingEntry.Score = 30\<rparr>,
      \<lparr>LivestreamRankingEntry.LivestreamID = 3, LivestreamRankingEntry.Score = 10\<rparr>] 3 = 2"
  by (simp add: livestream_rank_def LivestreamRanking_Less_def)

text \<open>
  C1 (as stated): the rank of that scenario is not 3.
\<close>

theorem C1_rank_is_not_3:
  "livestream_rank
     [\<lparr>LivestreamRankingEntry.LivestreamID = 1, LivestreamRankingEntry.Score = 10\<rparr>,
      \<lparr>LivestreamRankingEntry.LivestreamID = 2, LivestreamRankingEntry.Score = 30\<rparr>,
      \<lparr>LivestreamRankingEntry.LivestreamID = 3, LivestreamRankingEntry.Score = 10\<rparr>] 3 \<noteq> 3"
  by (simp add: livestream_rank_def LivestreamRanking_Less_def)

text \<open>
  C3. When the target occurs in no record of the score set, the scan increments the
  rank once per record and the computation returns the number of records plus one, as
  an \<open>int64\<close>. The computation has no error result. Below \<open>2^63 - 1\<close> records the
  signed value is that number itself.
\<close>

theorem C3_absent_target:
  "(t \<notin> LivestreamRankingEntry.LivestreamID ` set S \<longrightarrow>
      livestream_rank S t = of_nat (length S) + 1 \<and>
      (length S < 2 ^ 63 - 1 \<longrightarrow> sint (livestream_rank S t) = int (length S) + 1)) \<and>
   (u \<notin> UserRankingEntry.Username ` set US \<longrightarrow>
      user_rank US u = of_nat (length US) + 1 \<and>
      (length US < 2 ^ 63 - 1 \<longrightarrow> sint (user_rank US u) = int (length US) + 1))"
proof -
  have l: "livestream_rank S t = 1 + of_nat (length S)"
    if "t \<notin> LivestreamRankingEntry.LivestreamID ` set S"
    using that by (simp add: livestream_rank_eq scan_steps_absent set_sort_Sort length_sort_Sort)
  have r: "user_rank US u = 1 + of_nat (length US)"
    if "u \<notin> UserRankingEntry.Username ` set US"
    using that by (simp add: user_rank_eq scan_steps_absent set_sort_Sort length_sort_Sort)
  show ?thesis
    using l r sint_rank64 [of "length S"] sint_rank64 [of "length US"] by (auto simp: add.commute)
qed

theorem C3_absent_target_witness:
  "3 \<notin> LivestreamRankingEntry.LivestreamID `
         set [\<lparr>LivestreamRankingEntry.LivestreamID = 1, LivestreamRankingEntry.Score = 10\<rparr>,
              \<lparr>LivestreamRankingEntry.LivestreamID = 2, LivestreamRankingEntry.Score = 30\<rparr>] \<and>
   livestream_rank
     [\<lparr>LivestreamRankingEntry.LivestreamID = 1, LivestreamRankingEntry.Score = 10\<rparr>,
      \<lparr>LivestreamRankingEntry.LivestreamID = 2, LivestreamRankingEntry.Score = 30\<rparr>] 3 = 3 \<and>
   sint (livestream_rank
     [\<lparr>LivestreamRankingEntry.LivestreamID = 1, LivestreamRankingEntry.Score = 10\<rparr>,
      \<lparr>LivestreamRankingEntry.LivestreamID = 2, LivestreamRankingEntry.Score = 30\<rparr>] 3) = 3 \<and>
   ''carol'' \<notin> UserRankingEntry.Username `
         set [\<lparr>UserRankingEntry.Username = ''alice'', UserRankingEntry.Score = 3\<rparr>,
              \<lparr>UserRankingEntry.Username = ''bob'', UserRankingEntry.Score = 5\<rparr>] \<and>
   user_rank
     [\<lparr>UserRankingEntry.Username = ''alice'', UserRankingEntry.Score = 3\<rparr>,
      \<lparr>UserRankingEntry.Username = ''bob'', UserRankingEntry.Score = 5\<rparr>] ''carol'' = 3 \<and>
   sint (user_rank
     [\<lparr>UserRankingEntry.Username = ''alice'', UserRankingEntry.Score = 3\<rparr>,
      \<lparr>UserRankingEntry.Username = ''bob'', UserRankingEntry.Score = 5\<rparr>] ''carol'') = 3"
  using C3_absent_target
    [of 3 "[\<lparr>LivestreamRankingEntry.LivestreamID = 1, LivestreamRankingEntry.Score = 10\<rparr>,
            \<lparr>LivestreamRankingEntry.LivestreamID = 2, LivestreamRankingEntry.Score = 30\<rparr>]"
        "''carol''"
        "[\<lparr>UserRankingEntry.Username = ''alice'', UserRankingEntry.Score = 3\<rparr>,
          \<lparr>UserRankingEntry.Username = ''bob'', UserRankingEntry.Score = 5\<rparr>]"]
  by simp

text \<open>
  C5. For a score set \<open>S\<close> (of fewer than \<open>2^63\<close> records, as every Go slice) and a
  target that occurs in \<open>S\<close>, the rank returned lies between 1 and the number of
  records of \<open>S\<close>.
\<close>

theorem C5_rank_in_range:
  "(length S < 2 ^ 63 \<longrightarrow> t \<in> LivestreamRankingEntry.LivestreamID ` set S \<longrightarrow>
      1 \<le> sint (livestream_rank S t) \<and> sint (livestream_rank S t) \<le> int (length S)) \<and>
   (length US < 2 ^ 63 \<longrightarrow> u \<in> UserRankingEntry.Username ` set US \<longrightarrow>
      1 \<le> sint (user_rank US u) \<and> sint (user_rank US u) \<le> int (length US))"
proof -
  have l: "1 \<le> sint (livestream_rank S t) \<and> sint (livestream_rank S t) \<le> int (length S)"
    if b: "length S < 2 ^ 63" and m: "t \<in> LivestreamRankingEntry.LivestreamID ` set S"
  proof -
    let ?k = "scan_steps LivestreamRankingEntry.LivestreamID t (sort_Sort LivestreamRanking_Less S)"
    have "?k < length S"
      using scan_steps_present [of t LivestreamRankingEntry.LivestreamID "sort_Sort LivestreamRanking_Less S"] m
      by (simp add: set_sort_Sort length_sort_Sort)
    then show ?thesis
      using b sint_rank64 [of ?k] by (simp add: livestream_rank_eq)
  qed
  have r: "1 \<le> sint (user_rank US u) \<and> sint (user_rank US u) \<le> int (length US)"
    if b: "length US < 2 ^ 63" and m: "u \<in> UserRankingEntry.Username ` set US"
  proof -
    let ?k = "scan_steps UserRankingEntry.Username u (sort_Sort UserRanking_Less US)"
    have "?k < length US"
      using scan_steps_present [of u UserRankingEntry.Username "sort_Sort UserRanking_Less US"] m
      by (simp add: set_sort_Sort length_sort_Sort)
    then show ?thesis
      using b sint_rank64 [of ?k] by (simp add: user_rank_eq)
  qed
  show ?thesis using l r by blast
qed

theorem C5_rank_in_range_witness:
  "length [\<lparr>LivestreamRankingEntry.LivestreamID = 1, LivestreamRankingEntry.Score = 10\<rparr>,
           \<lparr>LivestreamRankingEntry.LivestreamID = 2, LivestreamRankingEntry.Score = 30\<rparr>] < 2 ^ 63 \<and>
   1 \<in> LivestreamRankingEntry.LivestreamID `
         set [\<lparr>LivestreamRankingEntry.LivestreamID = 1, LivestreamRankingEntry.Score = 10\<rparr>,
              \<lparr>LivestreamRankingEntry.LivestreamID = 2, LivestreamRankingEntry.Score = 30\<rparr>] \<and>
   1 \<le> sint (livestream_rank
     [\<lparr>LivestreamRankingEntry.LivestreamID = 1, LivestreamRankingEntry.Score = 10\<rparr>,
      \<lparr>LivestreamRankingEntry.LivestreamID = 2, LivestreamRankingEntry.Score = 30\<rparr>] 1) \<and>
   sint (livestream_rank
     [\<lparr>LivestreamRankingEntry.LivestreamID = 1, LivestreamRankingEntry.Score = 10\<rparr>,
      \<lparr>LivestreamRankingEntry.LivestreamID = 2, LivestreamRankingEntry.Score = 30\<rparr>] 1) \<le> 2 \<and>
   length [\<lparr>UserRankingEntry.Username = ''alice'', UserRankingEntry.Score = 3\<rparr>,
           \<lparr>UserRankingEntry.Username = ''bob'', UserRankingEntry.Score = 5\<rparr>] < 2 ^ 63 \<and>
   ''bob'' \<in> UserRankingEntry.Username `
         set [\<lparr>UserRankingEntry.Username = ''alice'', UserRankingEntry.Score = 3\<rparr>,
              \<lparr>UserRankingEntry.Username = ''bob'', UserRankingEntry.Score = 5\<rparr>] \<and>
   1 \<le> sint (user_rank
     [\<lparr>UserRankingEntry.Username = ''alice'', UserRankingEntry.Score = 3\<rparr>,
      \<lparr>UserRankingEntry.Username = ''bob'', UserRankingEntry.Score = 5\<rparr>] ''bob'') \<and>
   sint (user_rank
     [\<lparr>UserRankingEntry.Username = ''alice'', UserRankingEntry.Score = 3\<rparr>,
      \<lparr>UserRankingEntry.Username = ''bob'', UserRankingEntry.Score = 5\<rparr>] ''bob'') \<le> 2"
  using C5_rank_in_range
    [of "[\<lparr>LivestreamRankingEntry.LivestreamID = 1, LivestreamRankingEntry.Score = 10\<rparr>,
          \<lparr>LivestreamRankingEntry.LivestreamID = 2, LivestreamRankingEntry.Score = 30\<rparr>]"
        1
        "[\<lparr>UserRankingEntry.Username = ''alice'', UserRankingEntry.Score = 3\<rparr>,
          \<lparr>UserRankingEntry.Username = ''bob'', UserRankingEntry.Score = 5\<rparr>]"
        "''bob''"]
  by simp

section \<open>The order of the ranks\<close>

lemma sorted_distinct_unique:
  assumes total: "\<And>a b. a \<noteq> b \<Longrightarrow> lt a b \<or> lt b a"
  shows "sorted_wrt (\<lambda>a b. \<not> lt b a) xs \<Longrightarrow> sorted_wrt (\<lambda>a b. \<not> lt b a) ys \<Longrightarrow>
         distinct xs \<Longrightarrow> distinct ys \<Longrightarrow> set xs = set ys \<Longrightarrow> xs = ys"
proof (induction xs arbitrary: ys)
  case Nil
  then show ?case by simp
next
  case (Cons x xs)
  then obtain y ys' where ys: "ys = y # ys'" by (cases ys) auto
  have "x = y"
  proof (rule ccontr)
    assume ne: "x \<noteq> y"
    then have "y \<in> set xs" and "x \<in> set ys'"
      using Cons.prems(5) ys by auto
    then have "\<not> lt y x" and "\<not> lt x y"
      using Cons.prems(1,2) ys by auto
    then show False using total [OF ne] by blast
  qed
  moreover have "set xs = set ys'"
    using Cons.prems(3,4,5) ys \<open>x = y\<close> by auto
  ultimately show ?case
    using Cons.IH [of ys'] Cons.prems ys by simp
qed

lemma sort_Sort_unique:
  assumes asym: "\<And>a b. lt a b \<Longrightarrow> \<not> lt b a"
    and nt: "\<And>a b c. \<not> lt b a \<Longrightarrow> \<not> lt c b \<Longrightarrow> \<not> lt c a"
    and total: "\<And>a b. a \<noteq> b \<Longrightarrow> lt a b \<or> lt b a"
    and "distinct xs" and "distinct ys" and "set ys = set xs"
    and "sorted_wrt (\<lambda>a b. \<not> lt b a) ys"
  shows "ys = sort_Sort lt xs"
proof (rule sorted_distinct_unique [OF total])
  show "sorted_wrt (\<lambda>a b. \<not> lt b a) ys" by fact
  show "sorted_wrt (\<lambda>a b. \<not> lt b a) (sort_Sort lt xs)"
    by (rule sorted_sort_Sort [OF asym nt])
  show "distinct ys" by fact
  show "distinct (sort_Sort lt xs)"
    using distinct_map_sort_Sort [of "\<lambda>x. x" lt xs] assms(4) by simp
  show "set ys = set (sort_Sort lt xs)"
    using assms(6) by (simp add: set_sort_Sort)
qed

lemma LivestreamRanking_sort_unique:
  "distinct (map LivestreamRankingEntry.LivestreamID ranking) \<Longrightarrow> distinct ys \<Longrightarrow>
   set ys = set ranking \<Longrightarrow> sorted_wrt (\<lambda>a b. \<not> LivestreamRanking_Less b a) ys \<Longrightarrow>
   ys = sort_Sort LivestreamRanking_Less ranking"
  by (rule sort_Sort_unique [where lt = LivestreamRanking_Less,
        OF LivestreamRanking_Less_asym LivestreamRanking_Less_negtrans LivestreamRanking_Less_total])
     (simp_all add: distinct_map)

lemma UserRanking_sort_unique:
  "distinct (map UserRankingEntry.Username ranking) \<Longrightarrow> distinct ys \<Longrightarrow>
   set ys = set ranking \<Longrightarrow> sorted_wrt (\<lambda>a b. \<not> UserRanking_Less b a) ys \<Longrightarrow>
   ys = sort_Sort UserRanking_Less ranking"
  by (rule sort_Sort_unique [where lt = UserRanking_Less,
        OF UserRanking_Less_asym UserRanking_Less_negtrans UserRanking_Less_total])
     (simp_all add: distinct_map)

text \<open>The descending order the scan walks through.\<close>

lemma livestream_descending:
  "sorted_wrt (\<lambda>a b. \<not> LivestreamRanking_Less a b) (rev (sort_Sort LivestreamRanking_Less S))"
proof -
  have "sorted_wrt (\<lambda>a b. \<not> LivestreamRanking_Less b a) (sort_Sort LivestreamRanking_Less S)"
    by (rule sorted_sort_Sort [OF LivestreamRanking_Less_asym LivestreamRanking_Less_negtrans])
  then show ?thesis by (simp add: sorted_wrt_rev)
qed

lemma user_descending:
  "sorted_wrt (\<lambda>a b. \<not> UserRanking_Less a b) (rev (sort_Sort UserRanking_Less S))"
proof -
  have "sorted_wrt (\<lambda>a b. \<not> UserRanking_Less b a) (sort_Sort UserRanking_Less S)"
    by (rule sorted_sort_Sort [OF UserRanking_Less_asym UserRanking_Less_negtrans])
  then show ?thesis by (simp add: sorted_wrt_rev)
qed

lemma livestream_rank_at:
  assumes "distinct (map LivestreamRankingEntry.LivestreamID S)" and "j < length S"
  shows "livestream_rank S
           (LivestreamRankingEntry.LivestreamID (rev (sort_Sort LivestreamRanking_Less S) ! j))
         = 1 + of_nat j"
  using scan_steps_distinct [of LivestreamRankingEntry.LivestreamID
          "sort_Sort LivestreamRanking_Less S" j] assms
  by (simp add: livestream_rank_eq distinct_map_sort_Sort length_sort_Sort)

lemma user_rank_at:
  assumes "distinct (map UserRankingEntry.Username S)" and "j < length S"
  shows "user_rank S (UserRankingEntry.Username (rev (sort_Sort UserRanking_Less S) ! j))
         = 1 + of_nat j"
  using scan_steps_distinct [of UserRankingEntry.Username "sort_Sort UserRanking_Less S" j] assms
  by (simp add: user_rank_eq distinct_map_sort_Sort length_sort_Sort)

lemma position_order:
  assumes "sorted_wrt (\<lambda>a b. \<not> lt a b) ds" and "ja < length ds" and "jb < length ds"
    and "lt (ds ! ja) (ds ! jb)" and irrefl: "\<And>a. \<not> lt a a"
  shows "jb < ja"
proof (rule ccontr)
  assume "\<not> jb < ja"
  then consider "ja < jb" | "ja = jb" by linarith
  then show False
  proof cases
    case 1
    then have "\<not> lt (ds ! ja) (ds ! jb)"
      using sorted_wrt_nth_less [OF assms(1) 1 assms(3)] by simp
    then show False using assms(4) by simp
  next
    case 2
    then show False using assms(4) irrefl by simp
  qed
qed

lemma top_is_max:
  assumes "sorted_wrt (\<lambda>a b. \<not> lt a b) ds" and "h \<in> set ds"
    and "\<And>r. r \<in> set ds \<Longrightarrow> r \<noteq> h \<Longrightarrow> lt r h"
  shows "ds ! 0 = h"
proof (rule ccontr)
  assume ne: "ds ! 0 \<noteq> h"
  obtain k where k: "k < length ds" "ds ! k = h"
    using assms(2) by (auto simp: in_set_conv_nth)
  then have "0 < k" using ne by (cases k) auto
  then have "\<not> lt (ds ! 0) (ds ! k)"
    using sorted_wrt_nth_less [OF assms(1) _ k(1)] by simp
  moreover have "ds ! 0 \<in> set ds" using k(1) by (cases ds) auto
  ultimately show False using assms(3) ne k(2) by auto
qed

lemma bottom_is_min:
  assumes "sorted_wrt (\<lambda>a b. \<not> lt a b) ds" and "l \<in> set ds"
    and "\<And>r. r \<in> set ds \<Longrightarrow> r \<noteq> l \<Longrightarrow> lt l r"
  shows "ds ! (length ds - 1) = l"
proof (rule ccontr)
  assume ne: "ds ! (length ds - 1) \<noteq> l"
  obtain k where k: "k < length ds" "ds ! k = l"
    using assms(2) by (auto simp: in_set_conv_nth)
  then have lt: "k < length ds - 1" using ne by (cases "k = length ds - 1") auto
  have last: "length ds - 1 < length ds" using k(1) by simp
  have "\<not> lt (ds ! k) (ds ! (length ds - 1))"
    using sorted_wrt_nth_less [OF assms(1) lt last] by simp
  moreover have "ds ! (length ds - 1) \<in> set ds" using last by (rule nth_mem)
  ultimately show False using assms(3) ne k(2) by auto
qed

lemma livestream_tie_break:
  assumes d: "distinct (map LivestreamRankingEntry.LivestreamID S)" and b: "length S < 2 ^ 63"
    and a: "a \<in> set S" "b \<in> set S" and lt: "LivestreamRanking_Less a b"
  shows "sint (livestream_rank S (LivestreamRankingEntry.LivestreamID b))
         < sint (livestream_rank S (LivestreamRankingEntry.LivestreamID a))"
proof -
  let ?ds = "rev (sort_Sort LivestreamRanking_Less S)"
  have len: "length ?ds = length S" by (simp add: length_sort_Sort)
  have ma: "a \<in> set ?ds" and mb: "b \<in> set ?ds" using a by (simp_all add: set_sort_Sort)
  obtain ja where ja: "ja < length ?ds" "?ds ! ja = a"
    using ma unfolding in_set_conv_nth by blast
  obtain jb where jb: "jb < length ?ds" "?ds ! jb = b"
    using mb unfolding in_set_conv_nth by blast
  have "jb < ja"
    by (rule position_order [OF livestream_descending [of S] ja(1) jb(1)])
       (use ja jb lt LivestreamRanking_Less_asym in auto)
  moreover have "livestream_rank S (LivestreamRankingEntry.LivestreamID a) = 1 + of_nat ja"
    using livestream_rank_at [OF d, of ja] ja len by simp
  moreover have "livestream_rank S (LivestreamRankingEntry.LivestreamID b) = 1 + of_nat jb"
    using livestream_rank_at [OF d, of jb] jb len by simp
  ultimately show ?thesis
    using sint_rank64 [of ja] sint_rank64 [of jb] ja(1) jb(1) len b by simp
qed

lemma user_tie_break:
  assumes d: "distinct (map UserRankingEntry.Username S)" and b: "length S < 2 ^ 63"
    and a: "a \<in> set S" "b \<in> set S" and lt: "UserRanking_Less a b"
  shows "sint (user_rank S (UserRankingEntry.Username b))
         < sint (user_rank S (UserRankingEntry.Username a))"
proof -
  let ?ds = "rev (sort_Sort UserRanking_Less S)"
  have len: "length ?ds = length S" by (simp add: length_sort_Sort)
  have ma: "a \<in> set ?ds" and mb: "b \<in> set ?ds" using a by (simp_all add: set_sort_Sort)
  obtain ja where ja: "ja < length ?ds" "?ds ! ja = a"
    using ma unfolding in_set_conv_nth by blast
  obtain jb where jb: "jb < length ?ds" "?ds ! jb = b"
    using mb unfolding in_set_conv_nth by blast
  have "jb < ja"
    by (rule position_order [OF user_descending [of S] ja(1) jb(1)])
       (use ja jb lt UserRanking_Less_asym in auto)
  moreover have "user_rank S (UserRankingEntry.Username a) = 1 + of_nat ja"
    using user_rank_at [OF d, of ja] ja len by simp
  moreover have "user_rank S (UserRankingEntry.Username b) = 1 + of_nat jb"
    using user_rank_at [OF d, of jb] jb len by simp
  ultimately show ?thesis
    using sint_rank64 [of ja] sint_rank64 [of jb] ja(1) jb(1) len b by simp
qed

text \<open>
  C4. In a score set with one record per identifier, of two records with equal score
  the one with the smaller identifier (numerically for livestream ids, in byte order
  for usernames) receives the larger rank number.
\<close>

theorem C4_tie_break:
  "(distinct (map LivestreamRankingEntry.LivestreamID S) \<longrightarrow> length S < 2 ^ 63 \<longrightarrow>
    a \<in> set S \<longrightarrow> b \<in> set S \<longrightarrow>
    LivestreamRankingEntry.Score a = LivestreamRankingEntry.Score b \<longrightarrow>
    sint (LivestreamRankingEntry.LivestreamID a) < sint (LivestreamRankingEntry.LivestreamID b) \<longrightarrow>
      sint (livestream_rank S (LivestreamRankingEntry.LivestreamID b))
      < sint (livestream_rank S (LivestreamRankingEntry.LivestreamID a))) \<and>
   (distinct (map UserRankingEntry.Username US) \<longrightarrow> length US < 2 ^ 63 \<longrightarrow>
    x \<in> set US \<longrightarrow> y \<in> set US \<longrightarrow>
    UserRankingEntry.Score x = UserRankingEntry.Score y \<longrightarrow>
    UserRankingEntry.Username x < UserRankingEntry.Username y \<longrightarrow>
      sint (user_rank US (UserRankingEntry.Username y))
      < sint (user_rank US (UserRankingEntry.Username x)))"
proof (intro conjI impI)
  assume "distinct (map LivestreamRankingEntry.LivestreamID S)" "length S < 2 ^ 63"
    "a \<in> set S" "b \<in> set S"
    "LivestreamRankingEntry.Score a = LivestreamRankingEntry.Score b"
    "sint (LivestreamRankingEntry.LivestreamID a) < sint (LivestreamRankingEntry.LivestreamID b)"
  then show "sint (livestream_rank S (LivestreamRankingEntry.LivestreamID b))
      < sint (livestream_rank S (LivestreamRankingEntry.LivestreamID a))"
    by (intro livestream_tie_break) (simp_all add: LivestreamRanking_Less_def)
next
  assume "distinct (map UserRankingEntry.Username US)" "length US < 2 ^ 63"
    "x \<in> set US" "y \<in> set US"
    "UserRankingEntry.Score x = UserRankingEntry.Score y"
    "UserRankingEntry.Username x < UserRankingEntry.Username y"
  then show "sint (user_rank US (UserRankingEntry.Username y))
      < sint (user_rank US (UserRankingEntry.Username x))"
    by (intro user_tie_break) (simp_all add: UserRanking_Less_def)
qed

theorem C4_tie_break_witness:
  "distinct (map LivestreamRankingEntry.LivestreamID tied_livestreams) \<and>
   length tied_livestreams < 2 ^ 63 \<and>
   \<lparr>LivestreamRankingEntry.LivestreamID = 1, LivestreamRankingEntry.Score = 10\<rparr> \<in> set tied_livestreams \<and>
   \<lparr>LivestreamRankingEntry.LivestreamID = 3, LivestreamRankingEntry.Score = 10\<rparr> \<in> set tied_livestreams \<and>
   sint (1 :: int64) < sint (3 :: int64) \<and>
   sint (livestream_rank tied_livestreams 3) < sint (livestream_rank tied_livestreams 1) \<and>
   distinct (map UserRankingEntry.Username tied_users) \<and>
   length tied_users < 2 ^ 63 \<and>
   \<lparr>UserRankingEntry.Username = ''alice'', UserRankingEntry.Score = 3\<rparr> \<in> set tied_users \<and>
   \<lparr>UserRankingEntry.Username = ''carol'', UserRankingEntry.Score = 3\<rparr> \<in> set tied_users \<and>
   ''alice'' < ''carol'' \<and>
   sint (user_rank tied_users ''carol'') < sint (user_rank tied_users ''alice'')"
proof -
  have l: "length tied_livestreams = 3" "length tied_users = 3"
    "distinct (map LivestreamRankingEntry.LivestreamID tied_livestreams)"
    "distinct (map UserRankingEntry.Username tied_users)"
    "\<lparr>LivestreamRankingEntry.LivestreamID = 1, LivestreamRankingEntry.Score = 10\<rparr> \<in> set tied_livestreams"
    "\<lparr>LivestreamRankingEntry.LivestreamID = 3, LivestreamRankingEntry.Score = 10\<rparr> \<in> set tied_livestreams"
    "\<lparr>UserRankingEntry.Username = ''alice'', UserRankingEntry.Score = 3\<rparr> \<in> set tied_users"
    "\<lparr>UserRankingEntry.Username = ''carol'', UserRankingEntry.Score = 3\<rparr> \<in> set tied_users"
    by (simp_all add: tied_livestreams_def tied_users_def)
  show ?thesis
    using C4_tie_break
      [of tied_livestreams
          "\<lparr>LivestreamRankingEntry.LivestreamID = 1, LivestreamRankingEntry.Score = 10\<rparr>"
          "\<lparr>LivestreamRankingEntry.LivestreamID = 3, LivestreamRankingEntry.Score = 10\<rparr>"
          tied_users
          "\<lparr>UserRankingEntry.Username = ''alice'', UserRankingEntry.Score = 3\<rparr>"
          "\<lparr>UserRankingEntry.Username = ''carol'', UserRankingEntry.Score = 3\<rparr>"]
    by (simp add: l)
qed

lemma livestream_scores_descend:
  assumes "j < k" and "k < length S"
  shows "sint (LivestreamRankingEntry.Score (rev (sort_Sort LivestreamRanking_Less S) ! k))
         \<le> sint (LivestreamRankingEntry.Score (rev (sort_Sort LivestreamRanking_Less S) ! j))"
proof -
  have "k < length (rev (sort_Sort LivestreamRanking_Less S))"
    using assms(2) by (simp add: length_sort_Sort)
  then have "\<not> LivestreamRanking_Less (rev (sort_Sort LivestreamRanking_Less S) ! j)
                                       (rev (sort_Sort LivestreamRanking_Less S) ! k)"
    using sorted_wrt_nth_less [OF livestream_descending [of S] assms(1)] by simp
  then show ?thesis by (auto simp: LivestreamRanking_Less_iff)
qed

lemma user_scores_descend:
  assumes "j < k" and "k < length S"
  shows "sint (UserRankingEntry.Score (rev (sort_Sort UserRanking_Less S) ! k))
         \<le> sint (UserRankingEntry.Score (rev (sort_Sort UserRanking_Less S) ! j))"
proof -
  have "k < length (rev (sort_Sort UserRanking_Less S))"
    using assms(2) by (simp add: length_sort_Sort)
  then have "\<not> UserRanking_Less (rev (sort_Sort UserRanking_Less S) ! j)
                                 (rev (sort_Sort UserRanking_Less S) ! k)"
    using sorted_wrt_nth_less [OF user_descending [of S] assms(1)] by simp
  then show ?thesis by (auto simp: UserRanking_Less_iff)
qed

text \<open>
  C2 (as the code computes it). The rank is the 1-based position of the target
  counted from the highest score downward: in the descending order that the scan
  walks through (the reverse of the sorted slice), the entry at 0-based position \<open>j\<close>
  receives rank \<open>j + 1\<close>, and no entry after it has a higher score. Rank 1 goes to the
  highest-scored entity. Stated for score sets with one record per identifier.
\<close>

theorem C2_rank_counts_from_highest:
  "(distinct (map LivestreamRankingEntry.LivestreamID S) \<longrightarrow> length S < 2 ^ 63 \<longrightarrow>
    j < length S \<longrightarrow>
      sint (livestream_rank S
              (LivestreamRankingEntry.LivestreamID (rev (sort_Sort LivestreamRanking_Less S) ! j)))
        = int j + 1 \<and>
      (\<forall>k. j < k \<and> k < length S \<longrightarrow>
         sint (LivestreamRankingEntry.Score (rev (sort_Sort LivestreamRanking_Less S) ! k))
         \<le> sint (LivestreamRankingEntry.Score (rev (sort_Sort LivestreamRanking_Less S) ! j)))) \<and>
   (distinct (map UserRankingEntry.Username US) \<longrightarrow> length US < 2 ^ 63 \<longrightarrow>
    i < length US \<longrightarrow>
      sint (user_rank US (UserRankingEntry.Username (rev (sort_Sort UserRanking_Less US) ! i)))
        = int i + 1 \<and>
      (\<forall>k. i < k \<and> k < length US \<longrightarrow>
         sint (UserRankingEntry.Score (rev (sort_Sort UserRanking_Less US) ! k))
         \<le> sint (UserRankingEntry.Score (rev (sort_Sort UserRanking_Less US) ! i))))"
proof (intro conjI impI allI)
  assume d: "distinct (map LivestreamRankingEntry.LivestreamID S)"
    and b: "length S < 2 ^ 63" and j: "j < length S"
  show "sint (livestream_rank S
              (LivestreamRankingEntry.LivestreamID (rev (sort_Sort LivestreamRanking_Less S) ! j)))
        = int j + 1"
    using livestream_rank_at [OF d j] sint_rank64 [of j] b j by simp
next
  fix k assume "j < k \<and> k < length S"
  then show "sint (LivestreamRankingEntry.Score (rev (sort_Sort LivestreamRanking_Less S) ! k))
         \<le> sint (LivestreamRankingEntry.Score (rev (sort_Sort LivestreamRanking_Less S) ! j))"
    using livestream_scores_descend by blast
next
  assume d: "distinct (map UserRankingEntry.Username US)"
    and b: "length US < 2 ^ 63" and i: "i < length US"
  show "sint (user_rank US (UserRankingEntry.Username (rev (sort_Sort UserRanking_Less US) ! i)))
        = int i + 1"
    using user_rank_at [OF d i] sint_rank64 [of i] b i by simp
next
  fix k assume "i < k \<and> k < length US"
  then show "sint (UserRankingEntry.Score (rev (sort_Sort UserRanking_Less US) ! k))
         \<le> sint (UserRankingEntry.Score (rev (sort_Sort UserRanking_Less US) ! i))"
    using user_scores_descend by blast
qed

text \<open>
  C2 (as stated): on the score set (id 1, score 10), (id 2, score 30) the
  lowest-scored entity, id 1, does not receive rank 1.
\<close>

theorem C2_lowest_is_not_rank_1:
  "livestream_rank
     [\<lparr>LivestreamRankingEntry.LivestreamID = 1, LivestreamRankingEntry.Score = 10\<rparr>,
      \<lparr>LivestreamRankingEntry.LivestreamID = 2, LivestreamRankingEntry.Score = 30\<rparr>] 1 \<noteq> 1"
  by (simp add: livestream_rank_def LivestreamRanking_Less_def)

theorem C2_rank_counts_from_highest_witness:
  "distinct (map LivestreamRankingEntry.LivestreamID tied_livestreams) \<and>
   length tied_livestreams < 2 ^ 63 \<and> 1 < length tied_livestreams \<and>
   LivestreamRankingEntry.LivestreamID
     (rev (sort_Sort LivestreamRanking_Less tied_livestreams) ! 1) = 3 \<and>
   sint (livestream_rank tied_livestreams 3) = 2 \<and>
   sint (LivestreamRankingEntry.Score (rev (sort_Sort LivestreamRanking_Less tied_livestreams) ! 2))
   \<le> sint (LivestreamRankingEntry.Score (rev (sort_Sort LivestreamRanking_Less tied_livestreams) ! 1)) \<and>
   distinct (map UserRankingEntry.Username tied_users) \<and>
   length tied_users < 2 ^ 63 \<and> 0 < length tied_users \<and>
   UserRankingEntry.Username (rev (sort_Sort UserRanking_Less tied_users) ! 0) = ''bob'' \<and>
   sint (user_rank tied_users ''bob'') = 1 \<and>
   sint (UserRankingEntry.Score (rev (sort_Sort UserRanking_Less tied_users) ! 1))
   \<le> sint (UserRankingEntry.Score (rev (sort_Sort UserRanking_Less tied_users) ! 0))"
proof -
  have s: "sort_Sort LivestreamRanking_Less tied_livestreams =
     [\<lparr>LivestreamRankingEntry.LivestreamID = 1, LivestreamRankingEntry.Score = 10\<rparr>,
      \<lparr>LivestreamRankingEntry.LivestreamID = 3, LivestreamRankingEntry.Score = 10\<rparr>,
      \<lparr>LivestreamRankingEntry.LivestreamID = 2, LivestreamRankingEntry.Score = 30\<rparr>]"
    by (simp add: tied_livestreams_def LivestreamRanking_Less_def)
  have u: "sort_Sort UserRanking_Less tied_users =
     [\<lparr>UserRankingEntry.Username = ''alice'', UserRankingEntry.Score = 3\<rparr>,
      \<lparr>UserRankingEntry.Username = ''carol'', UserRankingEntry.Score = 3\<rparr>,
      \<lparr>UserRankingEntry.Username = ''bob'', UserRankingEntry.Score = 5\<rparr>]"
    by (simp add: tied_users_def UserRanking_Less_def)
  have l: "length tied_livestreams = 3" "length tied_users = 3"
    "distinct (map LivestreamRankingEntry.LivestreamID tied_livestreams)"
    "distinct (map UserRankingEntry.Username tied_users)"
    by (simp_all add: tied_livestreams_def tied_users_def)
  show ?thesis
    using C2_rank_counts_from_highest [of tied_livestreams 1 tied_users 0]
    by (simp add: s u l)
qed

lemma livestream_highest:
  assumes h: "h \<in> set S"
    and m: "\<And>r. r \<in> set S \<Longrightarrow> r \<noteq> h \<Longrightarrow>
              sint (LivestreamRankingEntry.Score r) < sint (LivestreamRankingEntry.Score h)"
  shows "livestream_rank S (LivestreamRankingEntry.LivestreamID h) = 1"
proof -
  let ?s = "sort_Sort LivestreamRanking_Less S"
  have "rev ?s ! 0 = h"
    by (rule top_is_max [OF livestream_descending])
       (use h m in \<open>auto simp: set_sort_Sort LivestreamRanking_Less_iff\<close>)
  moreover have "0 < length S" using h by (cases S) auto
  then have "0 < length ?s" by (simp only: length_sort_Sort)
  ultimately have "scan_steps LivestreamRankingEntry.LivestreamID
                     (LivestreamRankingEntry.LivestreamID h) ?s = 0"
    by (intro scan_steps_at) auto
  then show ?thesis by (simp add: livestream_rank_eq)
qed

lemma user_highest:
  assumes h: "h \<in> set S"
    and m: "\<And>r. r \<in> set S \<Longrightarrow> r \<noteq> h \<Longrightarrow>
              sint (UserRankingEntry.Score r) < sint (UserRankingEntry.Score h)"
  shows "user_rank S (UserRankingEntry.Username h) = 1"
proof -
  let ?s = "sort_Sort UserRanking_Less S"
  have "rev ?s ! 0 = h"
    by (rule top_is_max [OF user_descending])
       (use h m in \<open>auto simp: set_sort_Sort UserRanking_Less_iff\<close>)
  moreover have "0 < length S" using h by (cases S) auto
  then have "0 < length ?s" by (simp only: length_sort_Sort)
  ultimately have "scan_steps UserRankingEntry.Username (UserRankingEntry.Username h) ?s = 0"
    by (intro scan_steps_at) auto
  then show ?thesis by (simp add: user_rank_eq)
qed

lemma livestream_lowest:
  assumes d: "distinct (map LivestreamRankingEntry.LivestreamID S)" and b: "length S < 2 ^ 63"
    and l: "l \<in> set S"
    and m: "\<And>r. r \<in> set S \<Longrightarrow> r \<noteq> l \<Longrightarrow>
              sint (LivestreamRankingEntry.Score l) < sint (LivestreamRankingEntry.Score r)"
  shows "sint (livestream_rank S (LivestreamRankingEntry.LivestreamID l)) = int (length S)"
proof -
  let ?ds = "rev (sort_Sort LivestreamRanking_Less S)"
  have len: "length ?ds = length S" by (simp add: length_sort_Sort)
  have pos: "0 < length S" using l by (cases S) auto
  have "?ds ! (length ?ds - 1) = l"
    by (rule bottom_is_min [OF livestream_descending])
       (use l m in \<open>auto simp: set_sort_Sort LivestreamRanking_Less_iff\<close>)
  then have e: "?ds ! (length S - 1) = l" by (simp only: len)
  have "livestream_rank S (LivestreamRankingEntry.LivestreamID (?ds ! (length S - 1)))
          = 1 + of_nat (length S - 1)"
    by (rule livestream_rank_at [OF d]) (use pos in simp)
  then have "sint (livestream_rank S (LivestreamRankingEntry.LivestreamID l))
          = sint (1 + of_nat (length S - 1) :: int64)"
    by (simp only: e)
  also have "\<dots> = 1 + int (length S - 1)"
    by (rule sint_rank64) (use b in simp)
  also have "\<dots> = int (length S)" using pos by linarith
  finally show ?thesis .
qed

lemma user_lowest:
  assumes d: "distinct (map UserRankingEntry.Username S)" and b: "length S < 2 ^ 63"
    and l: "l \<in> set S"
    and m: "\<And>r. r \<in> set S \<Longrightarrow> r \<noteq> l \<Longrightarrow>
              sint (UserRankingEntry.Score l) < sint (UserRankingEntry.Score r)"
  shows "sint (user_rank S (UserRankingEntry.Username l)) = int (length S)"
proof -
  let ?ds = "rev (sort_Sort UserRanking_Less S)"
  have len: "length ?ds = length S" by (simp add: length_sort_Sort)
  have pos: "0 < length S" using l by (cases S) auto
  have "?ds ! (length ?ds - 1) = l"
    by (rule bottom_is_min [OF user_descending])
       (use l m in \<open>auto simp: set_sort_Sort UserRanking_Less_iff\<close>)
  then have e: "?ds ! (length S - 1) = l" by (simp only: len)
  have "user_rank S (UserRankingEntry.Username (?ds ! (length S - 1)))
          = 1 + of_nat (length S - 1)"
    by (rule user_rank_at [OF d]) (use pos in simp)
  then have "sint (user_rank S (UserRankingEntry.Username l))
          = sint (1 + of_nat (length S - 1) :: int64)"
    by (simp only: e)
  also have "\<dots> = 1 + int (length S - 1)"
    by (rule sint_rank64) (use b in simp)
  also have "\<dots> = int (length S)" using pos by linarith
  finally show ?thesis .
qed

text \<open>
  C6. A target whose score is strictly above the score of every other record receives
  rank 1; in a score set with one record per identifier, a target whose score is
  strictly below the score of every other record receives the number of records as
  its rank.
\<close>

theorem C6_highest_and_lowest:
  "(h \<in> set S \<longrightarrow>
    (\<forall>r\<in>set S. r \<noteq> h \<longrightarrow>
       sint (LivestreamRankingEntry.Score r) < sint (LivestreamRankingEntry.Score h)) \<longrightarrow>
      livestream_rank S (LivestreamRankingEntry.LivestreamID h) = 1) \<and>
   (distinct (map LivestreamRankingEntry.LivestreamID S) \<longrightarrow> length S < 2 ^ 63 \<longrightarrow>
    l \<in> set S \<longrightarrow>
    (\<forall>r\<in>set S. r \<noteq> l \<longrightarrow>
       sint (LivestreamRankingEntry.Score l) < sint (LivestreamRankingEntry.Score r)) \<longrightarrow>
      sint (livestream_rank S (LivestreamRankingEntry.LivestreamID l)) = int (length S)) \<and>
   (x \<in> set US \<longrightarrow>
    (\<forall>r\<in>set US. r \<noteq> x \<longrightarrow>
       sint (UserRankingEntry.Score r) < sint (UserRankingEntry.Score x)) \<longrightarrow>
      user_rank US (UserRankingEntry.Username x) = 1) \<and>
   (distinct (map UserRankingEntry.Username US) \<longrightarrow> length US < 2 ^ 63 \<longrightarrow>
    y \<in> set US \<longrightarrow>
    (\<forall>r\<in>set US. r \<noteq> y \<longrightarrow>
       sint (UserRankingEntry.Score y) < sint (UserRankingEntry.Score r)) \<longrightarrow>
      sint (user_rank US (UserRankingEntry.Username y)) = int (length US))"
  using livestream_highest [of h S] livestream_lowest [of S l]
    user_highest [of x US] user_lowest [of US y]
  by blast

theorem C6_highest_and_lowest_witness:
  "\<lparr>LivestreamRankingEntry.LivestreamID = 2, LivestreamRankingEntry.Score = 30\<rparr> \<in> set ranked_livestreams \<and>
   sint (10 :: int64) < sint (30 :: int64) \<and> sint (20 :: int64) < sint (30 :: int64) \<and>
   livestream_rank ranked_livestreams 2 = 1 \<and>
   distinct (map LivestreamRankingEntry.LivestreamID ranked_livestreams) \<and>
   length ranked_livestreams < 2 ^ 63 \<and>
   \<lparr>LivestreamRankingEntry.LivestreamID = 1, LivestreamRankingEntry.Score = 10\<rparr> \<in> set ranked_livestreams \<and>
   sint (10 :: int64) < sint (20 :: int64) \<and>
   sint (livestream_rank ranked_livestreams 1) = 3 \<and>
   \<lparr>UserRankingEntry.Username = ''bob'', UserRankingEntry.Score = 5\<rparr> \<in> set ranked_users \<and>
   sint (3 :: int64) < sint (5 :: int64) \<and> sint (4 :: int64) < sint (5 :: int64) \<and>
   user_rank ranked_users ''bob'' = 1 \<and>
   distinct (map UserRankingEntry.Username ranked_users) \<and>
   length ranked_users < 2 ^ 63 \<and>
   \<lparr>UserRankingEntry.Username = ''alice'', UserRankingEntry.Score = 3\<rparr> \<in> set ranked_users \<and>
   sint (3 :: int64) < sint (4 :: int64) \<and>
   sint (user_rank ranked_users ''alice'') = 3"
proof -
  have l: "length ranked_livestreams = 3" "length ranked_users = 3"
    "distinct (map LivestreamRankingEntry.LivestreamID ranked_livestreams)"
    "distinct (map UserRankingEntry.Username ranked_users)"
    "set ranked_livestreams =
       {\<lparr>LivestreamRankingEntry.LivestreamID = 1, LivestreamRankingEntry.Score = 10\<rparr>,
        \<lparr>LivestreamRankingEntry.LivestreamID = 2, LivestreamRankingEntry.Score = 30\<rparr>,
        \<lparr>LivestreamRankingEntry.LivestreamID = 3, LivestreamRankingEntry.Score = 20\<rparr>}"
    "set ranked_users =
       {\<lparr>UserRankingEntry.Username = ''alice'', UserRankingEntry.Score = 3\<rparr>,
        \<lparr>UserRankingEntry.Username = ''bob'', UserRankingEntry.Score = 5\<rparr>,
        \<lparr>UserRankingEntry.Username = ''carol'', UserRankingEntry.Score = 4\<rparr>}"
    by (simp_all add: ranked_livestreams_def ranked_users_def)
  show ?thesis
    using C6_highest_and_lowest
      [of "\<lparr>LivestreamRankingEntry.LivestreamID = 2, LivestreamRankingEntry.Score = 30\<rparr>"
          ranked_livestreams
          "\<lparr>LivestreamRankingEntry.LivestreamID = 1, LivestreamRankingEntry.Score = 10\<rparr>"
          "\<lparr>UserRankingEntry.Username = ''bob'', UserRankingEntry.Score = 5\<rparr>"
          ranked_users
          "\<lparr>UserRankingEntry.Username = ''alice'', UserRankingEntry.Score = 3\<rparr>"]
    by (simp add: l)
qed

section \<open>The tag cache and the user statistics\<close>

text \<open>
  C8. When the bulk read \<open>SELECT * FROM tags\<close> of \<open>initTagCache\<close> fails, the call
  returns an error and the cache it leaves is the cache it found: neither index is
  written on this path.
\<close>

theorem C8_failed_read_keeps_cache:
  "BeginTxx d = None \<Longrightarrow> select_tags d = Inl err \<Longrightarrow>
   initTagCache c d tagCache = (Some (Errorf ''failed to get tags: '' err), tagCache)"
  by (simp add: initTagCache_def)

theorem C8_failed_read_keeps_cache_witness:
  "BeginTxx (example_db\<lparr>select_tags := Inl (DBError ''connection lost'')\<rparr>) = None \<and>
   select_tags (example_db\<lparr>select_tags := Inl (DBError ''connection lost'')\<rparr>)
     = Inl (DBError ''connection lost'') \<and>
   initTagCache example_Context (example_db\<lparr>select_tags := Inl (DBError ''connection lost'')\<rparr>)
       (store_tag \<lparr>TagModel.ID = 5, TagModel.Name = ''old''\<rparr> NewTagCache)
     = (Some (Errorf ''failed to get tags: '' (DBError ''connection lost'')),
        store_tag \<lparr>TagModel.ID = 5, TagModel.Name = ''old''\<rparr> NewTagCache)"
proof -
  let ?d = "example_db\<lparr>select_tags := Inl (DBError ''connection lost'')\<rparr>"
  have b: "BeginTxx ?d = None" by (simp add: example_db_def)
  have s: "select_tags ?d = Inl (DBError ''connection lost'')" by simp
  show ?thesis
    using b s C8_failed_read_keeps_cache [OF b s] by simp
qed

text \<open>
  C9. Whenever \<open>getUserStatisticsHandler\<close> writes a response, its \<open>ViewersCount\<close> is
  0, whatever the database holds: the slice \<open>livestreams\<close> the viewers loop ranges
  over is never assigned. In the instance below the viewers history counts 7 for
  every livestream, and the response still carries 0.
\<close>

theorem C9_viewers_count_zero:
  "getUserStatisticsHandler c d = Inr stats \<Longrightarrow> ViewersCount stats = 0"
  by (auto simp: getUserStatisticsHandler_def bind_error_def Let_def
           split: sum.splits prod.splits option.splits)

theorem C9_viewers_count_zero_witness:
  "getUserStatisticsHandler example_Context example_db =
     Inr \<lparr>Rank = 2, ViewersCount = 0, TotalReactions = 3, TotalLivecomments = 2,
          UserStatistics.TotalTip = 4, FavoriteEmoji = ''smile''\<rparr> \<and>
   get_viewers_count example_db 10 = Inr 7 \<and>
   ViewersCount \<lparr>Rank = 2, ViewersCount = 0, TotalReactions = 3, TotalLivecomments = 2,
          UserStatistics.TotalTip = 4, FavoriteEmoji = ''smile''\<rparr> = 0"
proof -
  have h: "getUserStatisticsHandler example_Context example_db =
     Inr \<lparr>Rank = 2, ViewersCount = 0, TotalReactions = 3, TotalLivecomments = 2,
          UserStatistics.TotalTip = 4, FavoriteEmoji = ''smile''\<rparr>"
    by (simp add: getUserStatisticsHandler_def user_rank_stage_def bind_error_def query_def
        get_or_zero_def init_scores_def sum_stats_def example_db_def example_Context_def
        user_rank_def UserRanking_Less_def)
  have v: "get_viewers_count example_db 10 = Inr 7" by (simp add: example_db_def)
  show ?thesis
    using h v C9_viewers_count_zero [OF h] by simp
qed

section \<open>Reloading the tag cache\<close>

lemma tags_fold_store_tag:
  "tags (fold store_tag R c) i =
     (if i \<in> TagModel.ID ` set R then Some (last (filter (\<lambda>r. TagModel.ID r = i) R))
      else tags c i)"
proof (induction R arbitrary: c)
  case Nil
  then show ?case by simp
next
  case (Cons r R)
  have "tags (fold store_tag (r # R) c) i = tags (fold store_tag R (store_tag r c)) i"
    by simp
  also have "\<dots> = (if i \<in> TagModel.ID ` set R
                     then Some (last (filter (\<lambda>r. TagModel.ID r = i) R))
                     else tags (store_tag r c) i)"
    by (rule Cons.IH)
  also have "\<dots> = (if i \<in> TagModel.ID ` set (r # R)
                     then Some (last (filter (\<lambda>r. TagModel.ID r = i) (r # R)))
                     else tags c i)"
    by (auto simp: store_tag_def filter_empty_conv image_iff)
  finally show ?case .
qed

lemma nameToID_fold_store_tag:
  "nameToID (fold store_tag R c) n =
     (if n \<in> TagModel.Name ` set R
      then Some (TagModel.ID (last (filter (\<lambda>r. TagModel.Name r = n) R)))
      else nameToID c n)"
proof (induction R arbitrary: c)
  case Nil
  then show ?case by simp
next
  case (Cons r R)
  have "nameToID (fold store_tag (r # R) c) n = nameToID (fold store_tag R (store_tag r c)) n"
    by simp
  also have "\<dots> = (if n \<in> TagModel.Name ` set R
                     then Some (TagModel.ID (last (filter (\<lambda>r. TagModel.Name r = n) R)))
                     else nameToID (store_tag r c) n)"
    by (rule Cons.IH)
  also have "\<dots> = (if n \<in> TagModel.Name ` set (r # R)
                     then Some (TagModel.ID (last (filter (\<lambda>r. TagModel.Name r = n) (r # R))))
                     else nameToID c n)"
    by (auto simp: store_tag_def filter_empty_conv image_iff)
  finally show ?case .
qed

lemma initTagCache_success:
  "fst (initTagCache ctx d c) = None \<Longrightarrow> select_tags d = Inr R \<Longrightarrow>
   snd (initTagCache ctx d c) = fold store_tag R c"
  by (auto simp: initTagCache_def split: option.splits sum.splits)

lemma initTagCache_fresh:
  "select_tags d = Inr R \<Longrightarrow> fst (initTagCache ctx d NewTagCache) = None \<Longrightarrow>
   (i \<notin> TagModel.ID ` set R \<longrightarrow> snd (GetTagByID (snd (initTagCache ctx d NewTagCache)) i) = False) \<and>
   (n \<notin> TagModel.Name ` set R \<longrightarrow> snd (GetTagIDByName (snd (initTagCache ctx d NewTagCache)) n) = False)"
  by (simp add: initTagCache_success GetTagByID_def GetTagIDByName_def
      tags_fold_store_tag nameToID_fold_store_tag NewTagCache_def)

text \<open>
  C7 (as the code computes it). A successful run of \<open>initTagCache\<close> with table rows
  \<open>R\<close> merges the entries derived from \<open>R\<close> into the cache it finds: for an id (a
  name) carried by a row of \<open>R\<close> the lookup returns the last such row (its id) and
  \<open>true\<close>; for an id (a name) of no row of \<open>R\<close> the lookup returns what it returned
  before the call. Lemma \<open>initTagCache_fresh\<close> is the case of the cache as
  \<open>NewTagCache\<close> builds it, where the lookup of an id or a name of no row of \<open>R\<close>
  returns \<open>found = false\<close>.
\<close>

theorem C7_init_merges:
  "select_tags d = Inr R \<Longrightarrow> fst (initTagCache ctx d c) = None \<Longrightarrow>
   GetTagByID (snd (initTagCache ctx d c)) i =
     (if i \<in> TagModel.ID ` set R then (last (filter (\<lambda>r. TagModel.ID r = i) R), True)
      else GetTagByID c i) \<and>
   GetTagIDByName (snd (initTagCache ctx d c)) n =
     (if n \<in> TagModel.Name ` set R
      then (TagModel.ID (last (filter (\<lambda>r. TagModel.Name r = n) R)), True)
      else GetTagIDByName c n)"
  by (simp add: initTagCache_success GetTagByID_def GetTagIDByName_def
      tags_fold_store_tag nameToID_fold_store_tag)

text \<open>
  C7 (as stated): a cache filled by a first run with the row (5, old) and reloaded by
  a successful run with the rows (1, a) and (2, b) still answers \<open>found = true\<close> for
  the id 5 and the name old, which the second table does not hold.
\<close>

theorem C7_stale_entries_survive:
  "select_tags example_db = Inr [\<lparr>TagModel.ID = 1, TagModel.Name = ''a''\<rparr>,
                                 \<lparr>TagModel.ID = 2, TagModel.Name = ''b''\<rparr>] \<and>
   fst (initTagCache example_Context example_db
          (snd (initTagCache example_Context
                  (example_db\<lparr>select_tags := Inr [\<lparr>TagModel.ID = 5, TagModel.Name = ''old''\<rparr>]\<rparr>)
                  NewTagCache))) = None \<and>
   GetTagByID (snd (initTagCache example_Context example_db
          (snd (initTagCache example_Context
                  (example_db\<lparr>select_tags := Inr [\<lparr>TagModel.ID = 5, TagModel.Name = ''old''\<rparr>]\<rparr>)
                  NewTagCache)))) 5 = (\<lparr>TagModel.ID = 5, TagModel.Name = ''old''\<rparr>, True) \<and>
   GetTagIDByName (snd (initTagCache example_Context example_db
          (snd (initTagCache example_Context
                  (example_db\<lparr>select_tags := Inr [\<lparr>TagModel.ID = 5, TagModel.Name = ''old''\<rparr>]\<rparr>)
                  NewTagCache)))) ''old'' = (5, True)"
  by (simp add: initTagCache_def example_db_def example_Context_def NewTagCache_def
      store_tag_def GetTagByID_def GetTagIDByName_def)

theorem C7_init_merges_witness:
  "select_tags example_db = Inr [\<lparr>TagModel.ID = 1, TagModel.Name = ''a''\<rparr>,
                                 \<lparr>TagModel.ID = 2, TagModel.Name = ''b''\<rparr>] \<and>
   fst (initTagCache example_Context example_db
          (store_tag \<lparr>TagModel.ID = 5, TagModel.Name = ''old''\<rparr> NewTagCache)) = None \<and>
   GetTagByID (snd (initTagCache example_Context example_db
          (store_tag \<lparr>TagModel.ID = 5, TagModel.Name = ''old''\<rparr> NewTagCache))) 1
     = (\<lparr>TagModel.ID = 1, TagModel.Name = ''a''\<rparr>, True) \<and>
   GetTagIDByName (snd (initTagCache example_Context example_db
          (store_tag \<lparr>TagModel.ID = 5, TagModel.Name = ''old''\<rparr> NewTagCache))) ''c''
     = (0, False)"
proof -
  let ?c = "store_tag \<lparr>TagModel.ID = 5, TagModel.Name = ''old''\<rparr> NewTagCache"
  have s: "select_tags example_db = Inr [\<lparr>TagModel.ID = 1, TagModel.Name = ''a''\<rparr>,
                                 \<lparr>TagModel.ID = 2, TagModel.Name = ''b''\<rparr>]"
    by (simp add: example_db_def)
  have f: "fst (initTagCache example_Context example_db ?c) = None"
    by (simp add: initTagCache_def example_db_def example_Context_def)
  show ?thesis
    using s f C7_init_merges [OF s f, of 1 "''c''"]
    by (simp add: GetTagIDByName_def store_tag_def NewTagCache_def)
qed

lemma store_tag_inv:
  assumes "\<And>n i. nameToID c n = Some i \<Longrightarrow> \<exists>t. tags c i = Some t \<and> TagModel.ID t = i"
    and "nameToID (store_tag r c) n = Some i"
  shows "\<exists>t. tags (store_tag r c) i = Some t \<and> TagModel.ID t = i"
  using assms by (auto simp: store_tag_def split: if_splits)

lemma fold_store_tag_inv:
  "(\<And>n i. nameToID c n = Some i \<Longrightarrow> \<exists>t. tags c i = Some t \<and> TagModel.ID t = i) \<Longrightarrow>
   nameToID (fold store_tag R c) n = Some i \<Longrightarrow>
   \<exists>t. tags (fold store_tag R c) i = Some t \<and> TagModel.ID t = i"
proof (induction R arbitrary: c)
  case Nil
  then show ?case by simp
next
  case (Cons r R)
  have step: "fold store_tag (r # R) c = fold store_tag R (store_tag r c)" by simp
  show ?case
    unfolding step
  proof (rule Cons.IH [of "store_tag r c"])
    show "\<exists>t. tags (store_tag r c) i = Some t \<and> TagModel.ID t = i"
      if "nameToID (store_tag r c) n = Some i" for n i
      using Cons.prems(1) that by (rule store_tag_inv)
    show "nameToID (fold store_tag R (store_tag r c)) n = Some i"
      using Cons.prems(2) by simp
  qed
qed

lemma initTagCache_cases:
  "snd (initTagCache ctx d c) = c \<or> (\<exists>R. snd (initTagCache ctx d c) = fold store_tag R c)"
  by (auto simp: initTagCache_def split: option.splits sum.splits)

lemma reachable_inv:
  "reachable c \<Longrightarrow> nameToID c n = Some i \<Longrightarrow> \<exists>t. tags c i = Some t \<and> TagModel.ID t = i"
proof (induction arbitrary: n i rule: reachable.induct)
  case reachable_New
  then show ?case by (simp add: NewTagCache_def)
next
  case (reachable_init tagCache c d)
  from initTagCache_cases [of c d tagCache] show ?case
  proof
    assume "snd (initTagCache c d tagCache) = tagCache"
    then show ?thesis using reachable_init by simp
  next
    assume "\<exists>R. snd (initTagCache c d tagCache) = fold store_tag R tagCache"
    then obtain R where R: "snd (initTagCache c d tagCache) = fold store_tag R tagCache" ..
    show ?thesis
      unfolding R
      by (rule fold_store_tag_inv [where n = n]) (use reachable_init R in auto)
  qed
qed

text \<open>
  C10. On every cache the program can hold (the one of \<open>NewTagCache\<close>, and the one
  left by any call of \<open>initTagCache\<close>, failed or not), an id found under a name by
  \<open>GetTagIDByName\<close> is found by \<open>GetTagByID\<close>, with a tag whose \<open>ID\<close> is that id.
\<close>

theorem C10_name_index_within_id_index:
  "reachable c \<Longrightarrow> GetTagIDByName c n = (i, True) \<Longrightarrow>
   \<exists>tag. GetTagByID c i = (tag, True) \<and> TagModel.ID tag = i"
proof -
  assume r: "reachable c" and g: "GetTagIDByName c n = (i, True)"
  from g have "nameToID c n = Some i"
    by (auto simp: GetTagIDByName_def split: option.splits)
  with r obtain t where "tags c i = Some t" "TagModel.ID t = i"
    using reachable_inv by blast
  then show ?thesis by (simp add: GetTagByID_def)
qed

theorem C10_name_index_within_id_index_witness:
  "reachable (snd (initTagCache example_Context example_db NewTagCache)) \<and>
   GetTagIDByName (snd (initTagCache example_Context example_db NewTagCache)) ''b'' = (2, True) \<and>
   (\<exists>tag. GetTagByID (snd (initTagCache example_Context example_db NewTagCache)) 2 = (tag, True) \<and>
          TagModel.ID tag = 2)"
proof -
  let ?c = "snd (initTagCache example_Context example_db NewTagCache)"
  have r: "reachable ?c" by (rule reachable_init [OF reachable_New])
  have g: "GetTagIDByName ?c ''b'' = (2, True)"
    by (simp add: initTagCache_def example_db_def example_Context_def NewTagCache_def
        store_tag_def GetTagIDByName_def)
  show ?thesis
    using r g C10_name_index_within_id_index [OF r g] by blast
qed

end
